theory Spec2Isabelle
  imports Main
begin

section \<open>JSON values as the service handles them\<close>

text \<open>
  Schemas and generated records are the values that \<^verbatim>\<open>JSON.parse\<close> produces from a
  request body. An object keeps its entries in key order; a parsed object has no
  repeated key, and no result below depends on that. The numbers the service looks at are
  only tested for zero.
\<close>

datatype json =
    JNull
  | JBool bool
  | JNum int
  | JStr string
  | JArr "json list"
  | JObj "(string \<times> json) list"

text \<open>The truth value JavaScript gives a JSON value in \<^verbatim>\<open>if (v)\<close> and \<^verbatim>\<open>!v\<close>.\<close>

fun truthy :: "json \<Rightarrow> bool" where
  "truthy JNull = False"
| "truthy (JBool b) = b"
| "truthy (JNum n) = (n \<noteq> 0)"
| "truthy (JStr s) = (s \<noteq> [])"
| "truthy (JArr xs) = True"
| "truthy (JObj kvs) = True"

text \<open>\<^verbatim>\<open>typeof v === 'object'\<close>: true of objects, of arrays and of \<^verbatim>\<open>null\<close>.\<close>

fun typeofObject :: "json \<Rightarrow> bool" where
  "typeofObject JNull = True"
| "typeofObject (JArr xs) = True"
| "typeofObject (JObj kvs) = True"
| "typeofObject v = False"

text \<open>
  Reading the property \<open>k\<close> of a non-null value, for the keys this code reads
  (\<^verbatim>\<open>type\<close>, \<^verbatim>\<open>properties\<close>, \<^verbatim>\<open>items\<close>, \<^verbatim>\<open>additionalProperties\<close>): \<open>None\<close> is
  \<^verbatim>\<open>undefined\<close>; arrays and primitives have none of these properties.
\<close>

fun getProp :: "json \<Rightarrow> string \<Rightarrow> json option" where
  "getProp (JObj kvs) k = map_of kvs k"
| "getProp v k = None"


section \<open>Cache configuration (config/cache.js) and the LRU caches\<close>

record cacheOptions =
  max_entries :: nat
  ttl :: nat
  updateAgeOnGet :: bool

text \<open>\<^verbatim>\<open>cacheConfig.schema\<close>, \<^verbatim>\<open>cacheConfig.template\<close>, \<^verbatim>\<open>cacheConfig.validation\<close>; times in ms.\<close>

definition cacheConfig_schema :: cacheOptions where
  "cacheConfig_schema = \<lparr>max_entries = 200, ttl = 1000 * 60 * 60, updateAgeOnGet = True\<rparr>"

definition cacheConfig_template :: cacheOptions where
  "cacheConfig_template = \<lparr>max_entries = 100, ttl = 1000 * 60 * 5, updateAgeOnGet = False\<rparr>"

definition cacheConfig_validation :: cacheOptions where
  "cacheConfig_validation = \<lparr>max_entries = 100, ttl = 1000 * 60 * 30, updateAgeOnGet = True\<rparr>"

text \<open>
  The caches are instances of the \<^verbatim>\<open>lru-cache\<close> package, which is not part of the
  repository. It is modelled by its contract for the three options the configuration
  sets: entries are kept most recently used first, each with the time its age counts
  from; \<^verbatim>\<open>get\<close> drops an entry older than \<^verbatim>\<open>ttl\<close> and answers \<^verbatim>\<open>undefined\<close>, otherwise
  makes it the most recent one and, with \<^verbatim>\<open>updateAgeOnGet\<close>, restarts its age; \<^verbatim>\<open>set\<close>
  puts the entry first and evicts the least recently used ones beyond \<^verbatim>\<open>max\<close>.
\<close>

type_synonym ('k, 'v) lru = "('k \<times> 'v \<times> nat) list"

definition removeKey :: "'k \<Rightarrow> ('k, 'v) lru \<Rightarrow> ('k, 'v) lru" where
  "removeKey k c = filter (\<lambda>e. fst e \<noteq> k) c"

definition isStale :: "cacheOptions \<Rightarrow> nat \<Rightarrow> nat \<Rightarrow> bool" where
  "isStale opts now start = (ttl opts \<noteq> 0 \<and> start \<noteq> 0 \<and> ttl opts < now - start)"

definition lru_get :: "cacheOptions \<Rightarrow> nat \<Rightarrow> ('k, 'v) lru \<Rightarrow> 'k \<Rightarrow> ('k, 'v) lru \<times> 'v option" where
  "lru_get opts now c k =
     (case map_of c k of
        None \<Rightarrow> (c, None)
      | Some (v, start) \<Rightarrow>
          if isStale opts now start then (removeKey k c, None)
          else ((k, v, if updateAgeOnGet opts then now else start) # removeKey k c, Some v))"

definition lru_set :: "cacheOptions \<Rightarrow> nat \<Rightarrow> ('k, 'v) lru \<Rightarrow> 'k \<Rightarrow> 'v \<Rightarrow> ('k, 'v) lru" where
  "lru_set opts now c k v = take (max_entries opts) ((k, v, now) # removeKey k c)"


section \<open>Schema preparation (services/schemaService.js)\<close>

text \<open>
  \<^verbatim>\<open>removeIdRecursive(obj)\<close> works in place on the clone. It returns at once on a
  falsy or non-object value; on an array every statement is a no-op, since an array has
  none of the properties read. On an object it deletes \<^verbatim>\<open>$id\<close>, then visits every
  value of a truthy \<^verbatim>\<open>properties\<close> (the \<^verbatim>\<open>for ... in\<close> runs over the entries of an object
  and over the elements of an array), a truthy \<^verbatim>\<open>items\<close>, and a truthy
  \<^verbatim>\<open>additionalProperties\<close> of type object. The three keys differ from each other and
  from \<^verbatim>\<open>$id\<close>, so the statements amount to one pass over the remaining entries.
\<close>

fun removeIdRecursive :: "json \<Rightarrow> json" where
  "removeIdRecursive (JObj kvs) =
     JObj (map (\<lambda>(k, v).
        if k = ''properties'' then
          (k, case v of
                JObj ps \<Rightarrow> JObj (map (\<lambda>(k', v'). (k', removeIdRecursive v')) ps)
              | JArr xs \<Rightarrow> JArr (map removeIdRecursive xs)
              | _ \<Rightarrow> v)
        else if k = ''items'' then (k, if truthy v then removeIdRecursive v else v)
        else if k = ''additionalProperties'' then
          (k, if truthy v \<and> typeofObject v then removeIdRecursive v else v)
        else (k, v))
      (filter (\<lambda>(k, v). k \<noteq> ''$id'') kvs))"
| "removeIdRecursive v = v"

text \<open>
  \<^verbatim>\<open>prepareSchema(schema)\<close> with the schema cache as explicit state and the clock as an
  argument. The cache key is \<^verbatim>\<open>JSON.stringify(schema)\<close>; serialisation is injective on
  JSON values (the deep clone \<^verbatim>\<open>JSON.parse(JSON.stringify(schema))\<close> of the same
  function relies on it), so the model keys the cache by the schema value and the
  clone is the value itself. The function takes no generation mode.
\<close>

definition prepareSchema :: "nat \<Rightarrow> (json, json) lru \<Rightarrow> json \<Rightarrow> (json, json) lru \<times> json" where
  "prepareSchema now cache schema =
     (if \<not> truthy schema \<or> \<not> typeofObject schema then (cache, schema)
      else
        let cacheKey = schema;
            (cache1, cached) = lru_get cacheConfig_schema now cache cacheKey
        in case cached of
             Some c \<Rightarrow>
               if truthy c then (cache1, c)
               else
                 let prepared = removeIdRecursive schema
                 in (lru_set cacheConfig_schema now cache1 cacheKey prepared, prepared)
           | None \<Rightarrow>
               let prepared = removeIdRecursive schema
               in (lru_set cacheConfig_schema now cache1 cacheKey prepared, prepared))"

text \<open>
  The schema nodes of a schema: the objects \<open>removeIdRecursive\<close> reaches from the root
  through the values of \<^verbatim>\<open>properties\<close>, through \<^verbatim>\<open>items\<close> and through
  \<^verbatim>\<open>additionalProperties\<close>, in the order of the visit.
\<close>

fun nodes :: "json \<Rightarrow> json list" where
  "nodes (JObj kvs) =
     JObj kvs # concat (map (\<lambda>(k, v).
        if k = ''properties'' then
          (case v of
             JObj ps \<Rightarrow> concat (map (\<lambda>(k', v'). nodes v') ps)
           | JArr xs \<Rightarrow> concat (map nodes xs)
           | _ \<Rightarrow> [])
        else if k = ''items'' \<or> k = ''additionalProperties'' then nodes v
        else []) kvs)"
| "nodes v = []"

text \<open>What a node says about additional properties.\<close>

datatype additionalPolicy = Unset | Allowed | Forbidden | SubSchema | OtherValue

definition additionalPolicyOf :: "json \<Rightarrow> additionalPolicy" where
  "additionalPolicyOf n =
     (case getProp n ''additionalProperties'' of
        None \<Rightarrow> Unset
      | Some (JBool True) \<Rightarrow> Allowed
      | Some (JBool False) \<Rightarrow> Forbidden
      | Some (JObj kvs) \<Rightarrow> SubSchema
      | Some v \<Rightarrow> OtherValue)"

definition hasId :: "json \<Rightarrow> bool" where
  "hasId n = (getProp n ''$id'' \<noteq> None)"

text \<open>Every cached schema is the preparation of its key.\<close>

definition schemaCache_ok :: "(json, json) lru \<Rightarrow> bool" where
  "schemaCache_ok c = (\<forall>(k, v, t) \<in> set c. v = removeIdRecursive k)"


section \<open>Schema validation (services/schemaService.js)\<close>

text \<open>
  The error objects \<^verbatim>\<open>{ message }\<close> that \<^verbatim>\<open>validateSchema\<close> returns, one constructor for
  each message: \<^verbatim>\<open>Schema is required\<close>, \<^verbatim>\<open>Schema must be an object\<close>,
  \<^verbatim>\<open>Invalid schema type: ${schema.type}\<close>, and the message of the error thrown by the
  compilation.
\<close>

datatype schemaError =
    SchemaRequired
  | SchemaMustBeObject
  | InvalidSchemaType json
  | CompileFailed string

record validation =
  valid :: bool
  errors :: "schemaError list"

definition validTypes :: "json list" where
  "validTypes = map JStr [''object'', ''array'', ''string'', ''number'', ''integer'',
                          ''boolean'', ''null'']"

text \<open>
  \<^verbatim>\<open>validateSchema(schema)\<close>. The argument is \<open>None\<close> when the caller passes
  \<^verbatim>\<open>undefined\<close>. The validator library is a parameter: \<open>compile s\<close> is \<open>Inl msg\<close> when
  \<^verbatim>\<open>ajv.compile\<close> throws an error with message \<open>msg\<close>, and \<open>Inr f\<close> when it returns the
  validation function \<open>f\<close>. The validator cache is explicit state, keyed like the
  schema cache.
\<close>

definition validateSchema ::
  "(json \<Rightarrow> string + 'f) \<Rightarrow> nat \<Rightarrow> (json, 'f) lru \<Rightarrow> json option \<Rightarrow> (json, 'f) lru \<times> validation" where
  "validateSchema compile now cache schema =
     (case schema of
        None \<Rightarrow> (cache, \<lparr>valid = False, errors = [SchemaRequired]\<rparr>)
      | Some s \<Rightarrow>
          if \<not> truthy s then (cache, \<lparr>valid = False, errors = [SchemaRequired]\<rparr>)
          else if \<not> typeofObject s then (cache, \<lparr>valid = False, errors = [SchemaMustBeObject]\<rparr>)
          else if (case getProp s ''type'' of
                     Some t \<Rightarrow> truthy t \<and> t \<notin> set validTypes
                   | None \<Rightarrow> False)
          then (cache, \<lparr>valid = False, errors = [InvalidSchemaType (the (getProp s ''type''))]\<rparr>)
          else
            let cacheKey = s;
                (cache1, validate) = lru_get cacheConfig_validation now cache cacheKey
            in case validate of
                 Some f \<Rightarrow> (cache1, \<lparr>valid = True, errors = []\<rparr>)
               | None \<Rightarrow>
                   (case compile s of
                      Inl msg \<Rightarrow> (cache1, \<lparr>valid = False, errors = [CompileFailed msg]\<rparr>)
                    | Inr f \<Rightarrow>
                        (lru_set cacheConfig_validation now cache1 cacheKey f,
                         \<lparr>valid = True, errors = []\<rparr>)))"


section \<open>The strict post-pass (services/generatorService.js)\<close>









section \<open>The job registry (services/jobService.js)\<close>

text \<open>
  An \<^verbatim>\<open>AbortController\<close> is a handle; the state records which handles have been
  aborted. The one \<^verbatim>\<open>Map\<close> of the source holds two kinds of keys that never collide:
  numbers (request ids) and strings \<^verbatim>\<open>job:<jobId>\<close>; the model keeps one map for each.
\<close>

record request =
  requestId :: nat
  req_jobId :: "string option"
  abortController :: "nat option"
  req_count :: nat
  startTime :: nat

record jobService =
  activeRequests :: "nat \<rightharpoonup> request"
  jobAliases :: "string \<rightharpoonup> nat"
  requestIdCounter :: nat
  abortedControllers :: "nat set"

text \<open>\<^verbatim>\<open>if (jobId)\<close>: the header is present and not the empty string.\<close>

fun jobIdGiven :: "string option \<Rightarrow> bool" where
  "jobIdGiven None = False"
| "jobIdGiven (Some j) = (j \<noteq> [])"

definition registerRequest ::
  "jobService \<Rightarrow> string option \<Rightarrow> nat option \<Rightarrow> nat \<Rightarrow> nat \<Rightarrow> jobService \<times> nat" where
  "registerRequest s jobId controller cnt now =
     (let rid = requestIdCounter s + 1;
          s1 = s\<lparr>requestIdCounter := rid,
                 activeRequests := (activeRequests s)(rid \<mapsto>
                   \<lparr>requestId = rid, req_jobId = jobId, abortController = controller,
                    req_count = cnt, startTime = now\<rparr>)\<rparr>;
          s2 = (if jobIdGiven jobId
                then s1\<lparr>jobAliases := (jobAliases s1)(the jobId \<mapsto> rid)\<rparr>
                else s1)
      in (s2, rid))"

definition unregisterRequest :: "jobService \<Rightarrow> nat \<Rightarrow> jobService" where
  "unregisterRequest s rid =
     (case activeRequests s rid of
        None \<Rightarrow> s
      | Some r \<Rightarrow>
          let s1 = (if jobIdGiven (req_jobId r)
                    then s\<lparr>jobAliases := (jobAliases s)(the (req_jobId r) := None)\<rparr>
                    else s)
          in s1\<lparr>activeRequests := (activeRequests s1)(rid := None)\<rparr>)"

definition abortByRequestId :: "jobService \<Rightarrow> nat \<Rightarrow> jobService \<times> bool" where
  "abortByRequestId s rid =
     (case activeRequests s rid of
        None \<Rightarrow> (s, False)
      | Some r \<Rightarrow>
          (case abortController r of
             None \<Rightarrow> (s, False)
           | Some c \<Rightarrow>
               (unregisterRequest (s\<lparr>abortedControllers := insert c (abortedControllers s)\<rparr>) rid,
                True)))"

text \<open>\<^verbatim>\<open>if (requestId)\<close> holds of every number but zero.\<close>

definition abortByJobId :: "jobService \<Rightarrow> string \<Rightarrow> jobService \<times> bool" where
  "abortByJobId s jobId =
     (case jobAliases s jobId of
        None \<Rightarrow> (s, False)
      | Some rid \<Rightarrow> if rid \<noteq> 0 then abortByRequestId s rid else (s, False))"


section \<open>The worker pool (workers/pool.js)\<close>

record genOptions =
  jobId :: "string option"
  streaming :: bool
  randomMode :: bool
  streamBufferSize :: nat

text \<open>The argument of \<^verbatim>\<open>pool.run\<close>: \<^verbatim>\<open>{ schema, count, options }\<close>.\<close>

record task =
  task_schema :: json
  task_count :: nat
  task_streaming :: bool
  task_randomMode :: bool
  task_streamBufferSize :: nat

text \<open>
  What a rejected \<^verbatim>\<open>pool.run\<close> throws: an error named \<^verbatim>\<open>AbortError\<close>, or any other
  error with its message.
\<close>

datatype taskError = AbortError | OtherError string

record genStats =
  recordsGenerated :: nat
  duration :: nat

text \<open>
  A result object: \<^verbatim>\<open>data\<close> and \<^verbatim>\<open>stats\<close>, either of which a worker may leave
  \<^verbatim>\<open>undefined\<close>. The rate \<^verbatim>\<open>recordsPerSecond\<close>, a rounded floating-point quotient, is
  left out.
\<close>

record genResult =
  res_data :: "json list option"
  res_stats :: "genStats option"

datatype appError = JobAbortedError string | GenerationError string

record poolStats =
  totalGenerated :: nat
  totalDuration :: nat
  completedJobs :: nat
  abortedJobs :: nat

record generatorPool =
  stats :: poolStats
  activeJobs :: "string set"

text \<open>
  What one call of \<^verbatim>\<open>generate\<close> meets outside itself: the number of threads of the pool
  (\<^verbatim>\<open>this.pool.threads.length\<close>), the outcome of \<^verbatim>\<open>pool.run\<close> for the task submitted
  at each position (the worker file is not part of the sources, and aborts arrive
  through the signal given to \<^verbatim>\<open>pool.run\<close>), the order in which the submitted tasks
  settle, and the time \<^verbatim>\<open>Date.now() - startTime\<close> read after the tasks are done.
\<close>

record poolEnv =
  threads :: nat
  run :: "nat \<Rightarrow> task \<Rightarrow> taskError + genResult"
  settled :: "nat list"
  elapsed :: nat

text \<open>\<^verbatim>\<open>Math.ceil(a / b)\<close> for a positive divisor.\<close>

definition ceilDiv :: "nat \<Rightarrow> nat \<Rightarrow> nat" where
  "ceilDiv a b = (a + b - 1) div b"

text \<open>
  The loop \<^verbatim>\<open>for (let i = 0; i < count; i += chunkSize)\<close>. The chunk size is
  \<^verbatim>\<open>Math.ceil(count / workerCount)\<close>, positive whenever the loop is entered
  (\<open>0 < count\<close>); the test \<open>0 < chunkSize\<close> only makes the function total.
\<close>

function chunkLoop :: "nat \<Rightarrow> nat \<Rightarrow> nat \<Rightarrow> nat list" where
  "chunkLoop i cnt chunkSize =
     (if i < cnt \<and> 0 < chunkSize
      then min chunkSize (cnt - i) # chunkLoop (i + chunkSize) cnt chunkSize
      else [])"
  by pat_completeness auto
termination
  by (relation "measure (\<lambda>(i, cnt, chunkSize). cnt - i)") auto

text \<open>
  With no thread \<^verbatim>\<open>workerCount\<close> is zero and the chunk size is \<^verbatim>\<open>Infinity\<close>: the loop
  pushes the one chunk \<^verbatim>\<open>Math.min(Infinity, count)\<close> and stops.
\<close>

definition createChunks :: "nat \<Rightarrow> nat \<Rightarrow> nat list" where
  "createChunks cnt workerCount =
     (if workerCount = 0 then (if 0 < cnt then [cnt] else [])
      else chunkLoop 0 cnt (ceilDiv cnt workerCount))"

definition fanOutTasks :: "nat \<Rightarrow> json \<Rightarrow> nat \<Rightarrow> genOptions \<Rightarrow> task list" where
  "fanOutTasks availableThreads schema cnt opts =
     (let optimalChunkSize = 25;
          workerCount = min (availableThreads * 5) (ceilDiv cnt optimalChunkSize);
          chunks = createChunks cnt workerCount
      in map (\<lambda>chunkCount.
                \<lparr>task_schema = schema, task_count = chunkCount, task_streaming = False,
                 task_randomMode = randomMode opts,
                 task_streamBufferSize = streamBufferSize opts\<rparr>) chunks)"

text \<open>
  \<^verbatim>\<open>Promise.all\<close>: rejected with the error of the task that is rejected first in
  time, fulfilled with the results in the order of submission otherwise.
\<close>

definition promiseAll :: "nat list \<Rightarrow> ('e + 'a) list \<Rightarrow> 'e + 'a list" where
  "promiseAll order rs =
     (case List.find (\<lambda>i. i < length rs \<and> isl (rs ! i)) (order @ [0..<length rs]) of
        Some i \<Rightarrow> Inl (projl (rs ! i))
      | None \<Rightarrow> Inr (map projr rs))"

text \<open>\<^verbatim>\<open>r.data || []\<close>.\<close>

definition deliveredData :: "genResult \<Rightarrow> json list" where
  "deliveredData r = (case res_data r of Some d \<Rightarrow> d | None \<Rightarrow> [])"

text \<open>\<^verbatim>\<open>jobId || 'unknown'\<close>.\<close>

definition jobName :: "string option \<Rightarrow> string" where
  "jobName j = (if jobIdGiven j then the j else ''unknown'')"

definition countCompleted :: "generatorPool \<Rightarrow> nat \<Rightarrow> nat \<Rightarrow> generatorPool" where
  "countCompleted p generated dur =
     p\<lparr>stats := (stats p)\<lparr>totalGenerated := totalGenerated (stats p) + generated,
                           totalDuration := totalDuration (stats p) + dur,
                           completedJobs := completedJobs (stats p) + 1\<rparr>\<rparr>"

text \<open>
  The body of the \<^verbatim>\<open>try\<close> block of \<^verbatim>\<open>generate\<close>: the fan-out over the workers for
  50 records or more without streaming, a single task otherwise. The result is the
  pool with its counters, and what the block returns or the error it throws.
\<close>

definition tryGenerate ::
  "poolEnv \<Rightarrow> generatorPool \<Rightarrow> json \<Rightarrow> nat \<Rightarrow> genOptions \<Rightarrow> generatorPool \<times> (taskError + genResult)" where
  "tryGenerate env p schema cnt opts =
     (if 50 \<le> cnt \<and> \<not> streaming opts then
        let tasks = fanOutTasks (threads env) schema cnt opts
        in case promiseAll (settled env) (map (\<lambda>(i, t). run env i t) (enumerate 0 tasks)) of
             Inl e \<Rightarrow> (p, Inl e)
           | Inr results \<Rightarrow>
               let allData = concat (map deliveredData results);
                   dur = elapsed env
               in (countCompleted p (length allData) dur,
                   Inr \<lparr>res_data = Some allData,
                        res_stats = Some \<lparr>recordsGenerated = length allData,
                                          duration = dur\<rparr>\<rparr>)
      else
        case run env 0 \<lparr>task_schema = schema, task_count = cnt,
                        task_streaming = streaming opts,
                        task_randomMode = randomMode opts,
                        task_streamBufferSize = streamBufferSize opts\<rparr> of
          Inl e \<Rightarrow> (p, Inl e)
        | Inr result \<Rightarrow> (countCompleted p cnt (elapsed env), Inr result))"

text \<open>The \<^verbatim>\<open>catch\<close> block: an abort is counted and rethrown as \<^verbatim>\<open>JobAbortedError\<close>.\<close>

definition catchGenerate ::
  "genOptions \<Rightarrow> generatorPool \<times> (taskError + genResult) \<Rightarrow> generatorPool \<times> (appError + genResult)" where
  "catchGenerate opts attempt =
     (case attempt of
        (p, Inl AbortError) \<Rightarrow>
          (p\<lparr>stats := (stats p)\<lparr>abortedJobs := abortedJobs (stats p) + 1\<rparr>\<rparr>,
           Inl (JobAbortedError (jobName (jobId opts))))
      | (p, Inl (OtherError msg)) \<Rightarrow> (p, Inl (GenerationError msg))
      | (p, Inr result) \<Rightarrow> (p, Inr result))"

text \<open>
  \<^verbatim>\<open>generate(schema, count, options)\<close>: the registration in \<^verbatim>\<open>activeJobs\<close>, the
  \<^verbatim>\<open>try\<close> and \<^verbatim>\<open>catch\<close> blocks, and the \<^verbatim>\<open>finally\<close> block that removes the job.
\<close>

definition generate ::
  "poolEnv \<Rightarrow> generatorPool \<Rightarrow> json \<Rightarrow> nat \<Rightarrow> genOptions \<Rightarrow> generatorPool \<times> (appError + genResult)" where
  "generate env p schema cnt opts =
     (let p1 = (if jobIdGiven (jobId opts)
                then p\<lparr>activeJobs := insert (the (jobId opts)) (activeJobs p)\<rparr>
                else p);
          (p2, outcome) = catchGenerate opts (tryGenerate env p1 schema cnt opts)
      in ((if jobIdGiven (jobId opts)
           then p2\<lparr>activeJobs := activeJobs p2 - {the (jobId opts)}\<rparr>
           else p2),
          outcome))"


section \<open>The single-schema stream (routes/stream.js)\<close>

text \<open>
  The lines written to the response body. A chunk line carries \<^verbatim>\<open>chunk\<close>, \<^verbatim>\<open>data\<close>,
  \<^verbatim>\<open>progress.completed\<close>, \<^verbatim>\<open>progress.total\<close>, \<^verbatim>\<open>chunkStats.size\<close> and
  \<^verbatim>\<open>chunkStats.duration\<close>; the abort line carries \<^verbatim>\<open>completed\<close> (its \<^verbatim>\<open>error\<close> is
  \<^verbatim>\<open>aborted\<close> and its \<^verbatim>\<open>message\<close> \<^verbatim>\<open>Job stopped by user\<close>); the final line
  \<^verbatim>\<open>{"done":true,...}\<close> carries \<^verbatim>\<open>totalRecords\<close> and \<^verbatim>\<open>chunksStreamed\<close>; the failure
  line (\<^verbatim>\<open>error\<close> is \<^verbatim>\<open>generation_failed\<close>) carries \<^verbatim>\<open>message\<close> and \<^verbatim>\<open>completed\<close>.
  Percentages, rates and clock readings of the handler are left out.
\<close>

datatype ndjson =
    ChunkRecord nat "json list option" nat nat nat nat
  | AbortedRecord nat
  | DoneRecord nat nat
  | FailedRecord string nat

text \<open>
  What the handler meets at the iteration that writes chunk \<open>n\<close>: the value of
  \<^verbatim>\<open>abortController.signal.aborted\<close> read at the head of the loop, the environment of
  the call of \<^verbatim>\<open>generate\<close>, and the clock of \<^verbatim>\<open>prepareSchema\<close>.
\<close>

record streamEnv =
  signalAborted :: "nat \<Rightarrow> bool"
  poolAt :: "nat \<Rightarrow> poolEnv"
  clockAt :: "nat \<Rightarrow> nat"

record streamState =
  pool :: generatorPool
  schemaCache :: "(json, json) lru"
  written :: "ndjson list"
  ended :: bool
  totalSent :: nat
  chunkIndex :: nat

text \<open>
  \<^verbatim>\<open>error.message\<close> of what the \<^verbatim>\<open>try\<close> block can throw: an error of \<^verbatim>\<open>generate\<close>, or
  the \<^verbatim>\<open>TypeError\<close> of reading \<^verbatim>\<open>result.stats.duration\<close> when the result has no
  \<^verbatim>\<open>stats\<close>.
\<close>

fun errorMessage :: "appError option \<Rightarrow> string" where
  "errorMessage (Some (JobAbortedError j)) = ''Job '' @ j @ '' was aborted by user''"
| "errorMessage (Some (GenerationError msg)) = msg"
| "errorMessage None = ''Cannot read properties of undefined (reading 'duration')''"

text \<open>
  The loop of the handler from iteration \<open>i\<close> on. The result is the state when the loop
  is left, with \<open>None\<close> when it is left by its test or by \<^verbatim>\<open>break\<close>, and with the
  message of the error when it is left by a throw. The chunk line is built in the
  order \<^verbatim>\<open>chunk: chunkIndex++\<close>, \<^verbatim>\<open>data\<close>, \<^verbatim>\<open>progress\<close>, \<^verbatim>\<open>chunkStats\<close>, so the index is
  already incremented when reading \<^verbatim>\<open>result.stats.duration\<close> throws.
\<close>

function streamLoop ::
  "streamEnv \<Rightarrow> json \<Rightarrow> nat \<Rightarrow> nat \<Rightarrow> genOptions \<Rightarrow> nat \<Rightarrow> streamState \<Rightarrow> streamState \<times> string option" where
  "streamLoop env schema cnt chunkSize opts i st =
     (let safeChunkSize = max 500 (min chunkSize 5000)
      in if i < cnt then
           if signalAborted env (chunkIndex st)
           then (st\<lparr>written := written st @ [AbortedRecord (totalSent st)]\<rparr>, None)
           else
             let thisChunkSize = min safeChunkSize (cnt - i);
                 (cache1, prepared) =
                   prepareSchema (clockAt env (chunkIndex st)) (schemaCache st) schema;
                 (pool1, result) =
                   generate (poolAt env (chunkIndex st)) (pool st) prepared thisChunkSize opts;
                 st1 = st\<lparr>pool := pool1, schemaCache := cache1\<rparr>
             in case result of
                  Inl err \<Rightarrow> (st1, Some (errorMessage (Some err)))
                | Inr r \<Rightarrow>
                    (case res_stats r of
                       None \<Rightarrow>
                         (st1\<lparr>chunkIndex := chunkIndex st1 + 1\<rparr>, Some (errorMessage None))
                     | Some stat \<Rightarrow>
                         streamLoop env schema cnt chunkSize opts (i + safeChunkSize)
                           (st1\<lparr>written := written st1 @
                                   [ChunkRecord (chunkIndex st1) (res_data r) (i + thisChunkSize) cnt
                                      thisChunkSize (duration stat)],
                                 totalSent := totalSent st1 + thisChunkSize,
                                 chunkIndex := chunkIndex st1 + 1\<rparr>))
         else (st, None))"
  by pat_completeness auto
termination
  by (relation "measure (\<lambda>(env, schema, cnt, chunkSize, opts, i, st). cnt - i)") auto

text \<open>
  The handler of \<^verbatim>\<open>POST /generate-stream\<close> from \<^verbatim>\<open>let totalSent = 0\<close> on: the loop, then
  either the completion lines of the \<^verbatim>\<open>try\<close> block or the \<^verbatim>\<open>catch\<close>. Each chunk is
  generated with the options \<^verbatim>\<open>{ jobId, randomMode, streaming: false }\<close>, for which
  \<^verbatim>\<open>generate\<close> takes the default buffer size 500.
\<close>

definition generateStream ::
  "streamEnv \<Rightarrow> generatorPool \<Rightarrow> (json, json) lru \<Rightarrow> json \<Rightarrow> nat \<Rightarrow> bool \<Rightarrow> nat \<Rightarrow> string option
     \<Rightarrow> streamState" where
  "generateStream env p cache schema cnt rndMode chunkSize jid =
     (let st0 = \<lparr>pool = p, schemaCache = cache, written = [], ended = False,
                 totalSent = 0, chunkIndex = 0\<rparr>;
          opts = \<lparr>jobId = jid, streaming = False, randomMode = rndMode, streamBufferSize = 500\<rparr>;
          (st1, thrown) = streamLoop env schema cnt chunkSize opts 0 st0
      in case thrown of
           None \<Rightarrow>
             st1\<lparr>written := written st1 @ [DoneRecord (totalSent st1) (chunkIndex st1)],
                 ended := True\<rparr>
         | Some msg \<Rightarrow>
             st1\<lparr>written := written st1 @ [FailedRecord msg (totalSent st1)], ended := True\<rparr>)"


section \<open>The dispatch of \<^verbatim>\<open>POST /generate\<close> (routes/generate.js, services/generatorService.js)\<close>

text \<open>\<^verbatim>\<open>config.generation.workerThreshold\<close>.\<close>

definition workerThreshold :: nat where
  "workerThreshold = 300"

definition shouldUseWorkers :: "nat \<Rightarrow> bool" where
  "shouldUseWorkers cnt = (workerThreshold \<le> cnt)"

text \<open>
  The call the handler makes for one schema item: \<^verbatim>\<open>generatorPool.generate\<close> on the
  prepared schema, or \<^verbatim>\<open>generatorService.generateBatch\<close> on the caller's thread.
\<close>

datatype generationCall =
    PoolGenerate json nat genOptions
  | GenerateBatch json nat genOptions

definition dispatchItem ::
  "nat \<Rightarrow> (json, json) lru \<Rightarrow> json \<Rightarrow> nat \<Rightarrow> genOptions \<Rightarrow> (json, json) lru \<times> generationCall" where
  "dispatchItem now cache schemaItem itemCount genOpts =
     (if shouldUseWorkers itemCount then
        let (cache1, prepared) = prepareSchema now cache schemaItem
        in (cache1, PoolGenerate prepared itemCount genOpts)
      else (cache, GenerateBatch schemaItem itemCount genOpts))"


section \<open>Example inputs\<close>

text \<open>A schema with identifiers at two nodes, and one that forbids additional properties.\<close>

definition exampleSchema :: json where
  "exampleSchema =
     JObj [(''$id'', JStr ''urn:person''),
           (''type'', JStr ''object''),
           (''properties'', JObj [(''name'', JObj [(''$id'', JStr ''urn:name''), (''type'', JStr ''string'')])])]"

definition closedSchema :: json where
  "closedSchema =
     JObj [(''type'', JStr ''object''),
           (''properties'', JObj [(''name'', JObj [(''type'', JStr ''string'')])]),
           (''additionalProperties'', JBool False)]"

text \<open>The schema of the scenario \<^verbatim>\<open>{"type":"banana"}\<close>.\<close>

definition bananaSchema :: json where
  "bananaSchema = JObj [(''type'', JStr ''banana'')]"

text \<open>
  A stand-in for the validator library in examples: it rejects what is not an object,
  and an object whose \<^verbatim>\<open>type\<close> is present and falsy.
\<close>

definition toyCompile :: "json \<Rightarrow> string + unit" where
  "toyCompile s =
     (case s of
        JObj kvs \<Rightarrow>
          (case map_of kvs ''type'' of
             Some t \<Rightarrow> if truthy t then Inr () else Inl ''schema is invalid''
           | None \<Rightarrow> Inr ())
      | _ \<Rightarrow> Inl ''schema must be object or boolean'')"



text \<open>The registry of a fresh process.\<close>

definition emptyRegistry :: jobService where
  "emptyRegistry = \<lparr>activeRequests = Map.empty, jobAliases = Map.empty,
                     requestIdCounter = 0, abortedControllers = {}\<rparr>"

text \<open>Generation options of a request that sets \<^verbatim>\<open>streaming\<close>.\<close>

definition streamingOptions :: genOptions where
  "streamingOptions = \<lparr>jobId = Some ''job-1'', streaming = True, randomMode = False,
                        streamBufferSize = 1000\<rparr>"

text \<open>
  A pool of two threads whose workers deliver the records asked for (each record
  \<^verbatim>\<open>null\<close>, and no \<^verbatim>\<open>stats\<close>), options of a buffered job, and the pool of a fresh
  process.
\<close>

definition bufferedOptions :: genOptions where
  "bufferedOptions = \<lparr>jobId = Some ''job-1'', streaming = False, randomMode = False,
                       streamBufferSize = 500\<rparr>"

definition steadyResult :: "task \<Rightarrow> genResult" where
  "steadyResult t = \<lparr>res_data = Some (replicate (task_count t) JNull), res_stats = None\<rparr>"

definition steadyWorkers :: poolEnv where
  "steadyWorkers = \<lparr>threads = 2, run = (\<lambda>i t. Inr (steadyResult t)), settled = [], elapsed = 7\<rparr>"

definition freshPool :: generatorPool where
  "freshPool = \<lparr>stats = \<lparr>totalGenerated = 0, totalDuration = 0, completedJobs = 0,
                           abortedJobs = 0\<rparr>,
                 activeJobs = {}\<rparr>"

text \<open>A stream environment with the steady pool, in which the abort signal is never seen.\<close>

definition quietStream :: streamEnv where
  "quietStream = \<lparr>signalAborted = (\<lambda>n. False), poolAt = (\<lambda>n. steadyWorkers),
                   clockAt = (\<lambda>n. 0)\<rparr>"

text \<open>The same, with the abort signal seen at the head of the second iteration.\<close>

definition abortedStream :: streamEnv where
  "abortedStream = \<lparr>signalAborted = (\<lambda>n. n = 1), poolAt = (\<lambda>n. steadyWorkers),
                     clockAt = (\<lambda>n. 0)\<rparr>"

text \<open>What the steady workers deliver for a job, in the order of submission.\<close>

definition steadyData :: "json \<Rightarrow> nat \<Rightarrow> genOptions \<Rightarrow> json list" where
  "steadyData schema cnt opts =
     concat (map (\<lambda>t. deliveredData (steadyResult t)) (fanOutTasks 2 schema cnt opts))"

text \<open>A pool in which every task is rejected with \<^verbatim>\<open>AbortError\<close>, as after \<^verbatim>\<open>abortJob\<close>.\<close>

definition abortingWorkers :: poolEnv where
  "abortingWorkers = \<lparr>threads = 2, run = (\<lambda>i t. Inl AbortError), settled = [], elapsed = 3\<rparr>"

text \<open>A stream whose pool job is cancelled while the second chunk is generated.\<close>

definition stoppedStream :: streamEnv where
  "stoppedStream = \<lparr>signalAborted = (\<lambda>n. False),
                     poolAt = (\<lambda>n. if n = 1 then abortingWorkers else steadyWorkers),
                     clockAt = (\<lambda>n. 0)\<rparr>"


section \<open>Auxiliary notions for the proofs\<close>

text \<open>
  What \<open>removeIdRecursive\<close> leaves under the key \<open>k\<close> of an object, and the schema nodes
  below that key.
\<close>

definition childValue :: "string \<Rightarrow> json \<Rightarrow> json" where
  "childValue k v =
     (if k = ''properties'' then
        (case v of
           JObj ps \<Rightarrow> JObj (map (\<lambda>(k', v'). (k', removeIdRecursive v')) ps)
         | JArr xs \<Rightarrow> JArr (map removeIdRecursive xs)
         | _ \<Rightarrow> v)
      else if k = ''items'' \<or> k = ''additionalProperties'' then removeIdRecursive v
      else v)"

definition childNodes :: "string \<Rightarrow> json \<Rightarrow> json list" where
  "childNodes k v =
     (if k = ''properties'' then
        (case v of
           JObj ps \<Rightarrow> concat (map (\<lambda>(k', v'). nodes v') ps)
         | JArr xs \<Rightarrow> concat (map nodes xs)
         | _ \<Rightarrow> [])
      else if k = ''items'' \<or> k = ''additionalProperties'' then nodes v
      else [])"

text \<open>
  Two facts about the surroundings of \<^verbatim>\<open>validateSchema\<close>. The validator library checks a
  schema against the meta-schema when it compiles it, so it throws on an array and on a
  schema whose \<^verbatim>\<open>type\<close> is \<^verbatim>\<open>null\<close>, \<^verbatim>\<open>false\<close>, \<^verbatim>\<open>0\<close> or the empty string; and a
  validator gets into the cache only after its schema has compiled.
\<close>


definition rejectsIllTyped :: "(json \<Rightarrow> string + 'f) \<Rightarrow> bool" where
  "rejectsIllTyped compile =
     (\<forall>s. ((\<exists>xs. s = JArr xs) \<or> (\<exists>t. getProp s ''type'' = Some t \<and> \<not> truthy t)) \<longrightarrow>
          isl (compile s))"


definition validatorCache_ok :: "(json \<Rightarrow> string + 'f) \<Rightarrow> (json, 'f) lru \<Rightarrow> bool" where
  "validatorCache_ok compile c = (\<forall>(k, f, t) \<in> set c. \<not> isl (compile k))"


text \<open>The lines that carry a chunk of records.\<close>

fun isChunk :: "ndjson \<Rightarrow> bool" where
  "isChunk (ChunkRecord n d c t s u) = True"
| "isChunk r = False"


section \<open>Properties of schema preparation\<close>



lemma removeId_nonobj: "(\<And>kvs. v \<noteq> JObj kvs) \<Longrightarrow> removeIdRecursive v = v"
  by (cases v) auto

lemma nodes_nonobj: "(\<And>kvs. v \<noteq> JObj kvs) \<Longrightarrow> nodes v = []"
  by (cases v) auto

lemma schema_induct [case_names Obj Other]:
  assumes obj: "\<And>kvs.
      (\<And>ps k v. (''properties'', JObj ps) \<in> set kvs \<Longrightarrow> (k, v) \<in> set ps \<Longrightarrow> P v) \<Longrightarrow>
      (\<And>xs x. (''properties'', JArr xs) \<in> set kvs \<Longrightarrow> x \<in> set xs \<Longrightarrow> P x) \<Longrightarrow>
      (\<And>v. (''items'', v) \<in> set kvs \<Longrightarrow> P v) \<Longrightarrow>
      (\<And>v. (''additionalProperties'', v) \<in> set kvs \<Longrightarrow> P v) \<Longrightarrow> P (JObj kvs)"
    and other: "\<And>v. (\<And>kvs. v \<noteq> JObj kvs) \<Longrightarrow> P v"
  shows "P s"
proof (induction s rule: removeIdRecursive.induct)
  case (1 kvs)
  show ?case
  proof (rule obj)
    fix ps k v assume "(''properties'', JObj ps) \<in> set kvs" "(k, v) \<in> set ps"
    then show "P v" using "1.IH"(2)[of "(''properties'', JObj ps)" "''properties''" "JObj ps" ps "(k, v)" k v]
      by simp
  next
    fix xs x assume "(''properties'', JArr xs) \<in> set kvs" "x \<in> set xs"
    then show "P x" using "1.IH"(1)[of "(''properties'', JArr xs)" "''properties''" "JArr xs" xs x]
      by simp
  next
    fix v assume a: "(''items'', v) \<in> set kvs"
    show "P v"
    proof (cases "truthy v")
      case True
      then show ?thesis using a "1.IH"(3)[of "(''items'', v)" "''items''" v] by simp
    next
      case False
      then have "\<And>kvs. v \<noteq> JObj kvs" by auto
      then show ?thesis by (rule other)
    qed
  next
    fix v assume a: "(''additionalProperties'', v) \<in> set kvs"
    show "P v"
    proof (cases "truthy v \<and> typeofObject v")
      case True
      then show ?thesis
        using a "1.IH"(4)[of "(''additionalProperties'', v)" "''additionalProperties''" v] by simp
    next
      case False
      then have "\<And>kvs. v \<noteq> JObj kvs" by auto
      then show ?thesis by (rule other)
    qed
  qed
qed (rule other, simp)+


lemma removeId_guard1: "(if truthy v then removeIdRecursive v else v) = removeIdRecursive v"
  by (cases v) auto

lemma removeId_guard2:
  "(if truthy v \<and> typeofObject v then removeIdRecursive v else v) = removeIdRecursive v"
  by (cases v) auto

lemma removeId_obj:
  "removeIdRecursive (JObj kvs) =
     JObj (map (\<lambda>(k, v). (k, childValue k v)) (filter (\<lambda>(k, v). k \<noteq> ''$id'') kvs))"
proof -
  have "(\<lambda>(k, v).
        if k = ''properties'' then
          (k, case v of
                JObj ps \<Rightarrow> JObj (map (\<lambda>(k', v'). (k', removeIdRecursive v')) ps)
              | JArr xs \<Rightarrow> JArr (map removeIdRecursive xs)
              | _ \<Rightarrow> v)
        else if k = ''items'' then (k, if truthy v then removeIdRecursive v else v)
        else if k = ''additionalProperties'' then
          (k, if truthy v \<and> typeofObject v then removeIdRecursive v else v)
        else (k, v)) = (\<lambda>(k, v). (k, childValue k v))"
    by (auto simp: fun_eq_iff childValue_def removeId_guard1 removeId_guard2)
  then show ?thesis by simp
qed

lemma nodes_obj:
  "nodes (JObj kvs) = JObj kvs # concat (map (\<lambda>(k, v). childNodes k v) kvs)"
proof -
  have "(\<lambda>(k, v).
        if k = ''properties'' then
          (case v of
             JObj ps \<Rightarrow> concat (map (\<lambda>(k', v'). nodes v') ps)
           | JArr xs \<Rightarrow> concat (map nodes xs)
           | _ \<Rightarrow> [])
        else if k = ''items'' \<or> k = ''additionalProperties'' then nodes v
        else []) = (\<lambda>(k, v). childNodes k v)"
    by (auto simp: fun_eq_iff childNodes_def)
  then show ?thesis by simp
qed

declare removeIdRecursive.simps(1) [simp del] nodes.simps(1) [simp del]

lemma childNodes_id [simp]: "childNodes ''$id'' v = []"
  by (simp add: childNodes_def)







lemma removeId_noId: "n \<in> set (nodes (removeIdRecursive s)) \<Longrightarrow> \<not> hasId n"
proof (induction s arbitrary: n rule: schema_induct)
  case (Obj kvs)
  let ?kvs' = "map (\<lambda>(k, v). (k, childValue k v)) (filter (\<lambda>(k, v). k \<noteq> ''$id'') kvs)"
  from Obj.prems have "n = JObj ?kvs' \<or> (\<exists>(k, v) \<in> set ?kvs'. n \<in> set (childNodes k v))"
    by (auto simp: removeId_obj nodes_obj)
  then show ?case
  proof
    assume n: "n = JObj ?kvs'"
    have "''$id'' \<notin> fst ` set ?kvs'" by auto
    then have "map_of ?kvs' ''$id'' = None" by (simp add: map_of_eq_None_iff)
    then show ?thesis using n by (simp add: hasId_def)
  next
    assume "\<exists>(k, v) \<in> set ?kvs'. n \<in> set (childNodes k v)"
    then obtain k v where kv: "(k, v) \<in> set kvs" and n: "n \<in> set (childNodes k (childValue k v))"
      by auto
    show ?thesis
    proof (cases "k = ''properties''")
      case True
      show ?thesis
      proof (cases v)
        case (JObj ps)
        with n True obtain k' v' where "(k', v') \<in> set ps" "n \<in> set (nodes (removeIdRecursive v'))"
          by (auto simp: childNodes_def childValue_def)
        then show ?thesis using Obj.IH(1) kv True JObj by blast
      next
        case (JArr xs)
        with n True obtain x where "x \<in> set xs" "n \<in> set (nodes (removeIdRecursive x))"
          by (auto simp: childNodes_def childValue_def)
        then show ?thesis using Obj.IH(2) kv True JArr by blast
      qed (use n True in \<open>simp_all add: childNodes_def childValue_def\<close>)
    next
      case False
      then show ?thesis
        using Obj.IH(3)[of v n] Obj.IH(4)[of v n] kv n
        by (auto simp: childNodes_def childValue_def split: if_splits)
    qed
  qed
next
  case (Other v)
  then show ?case by (simp add: removeId_nonobj nodes_nonobj)
qed

lemma removeId_fix: "(\<And>n. n \<in> set (nodes s) \<Longrightarrow> \<not> hasId n) \<Longrightarrow> removeIdRecursive s = s"
proof (induction s rule: schema_induct)
  case (Obj kvs)
  have sub: "set (childNodes k v) \<subseteq> set (nodes (JObj kvs))" if "(k, v) \<in> set kvs" for k v
    using that by (auto simp: nodes_obj)
  have "\<not> hasId (JObj kvs)" using Obj.prems by (simp add: nodes_obj)
  then have noid: "\<And>k v. (k, v) \<in> set kvs \<Longrightarrow> k \<noteq> ''$id''"
    by (auto simp: hasId_def map_of_eq_None_iff image_iff) 
  then have filt: "filter (\<lambda>(k, v). k \<noteq> ''$id'') kvs = kvs"
    by (auto simp: filter_id_conv)
  have child: "childValue k v = v" if kv: "(k, v) \<in> set kvs" for k v
  proof (cases "k = ''properties''")
    case True
    show ?thesis
    proof (cases v)
      case (JObj ps)
      have "removeIdRecursive v' = v'" if "(k', v') \<in> set ps" for k' v'
      proof (rule Obj.IH(1))
        show "(''properties'', JObj ps) \<in> set kvs" using kv True JObj by simp
        show "(k', v') \<in> set ps" by (rule that)
        fix n assume "n \<in> set (nodes v')"
        then have "n \<in> set (childNodes k v)" using that True JObj
          by (auto simp: childNodes_def)
        then show "\<not> hasId n" using sub[OF kv] Obj.prems by blast
      qed
      then have "map (\<lambda>(k', v'). (k', removeIdRecursive v')) ps = ps"
        by (intro map_idI) auto
      then show ?thesis using True JObj by (simp add: childValue_def)
    next
      case (JArr xs)
      have "removeIdRecursive x = x" if "x \<in> set xs" for x
      proof (rule Obj.IH(2))
        show "(''properties'', JArr xs) \<in> set kvs" using kv True JArr by simp
        show "x \<in> set xs" by (rule that)
        fix n assume "n \<in> set (nodes x)"
        then have "n \<in> set (childNodes k v)" using that True JArr
          by (auto simp: childNodes_def)
        then show "\<not> hasId n" using sub[OF kv] Obj.prems by blast
      qed
      then have "map removeIdRecursive xs = xs"
        by (intro map_idI) auto
      then show ?thesis using True JArr by (simp add: childValue_def)
    qed (simp_all add: childValue_def True)
  next
    case False
    note notProps = False
    show ?thesis
    proof (cases "k = ''items'' \<or> k = ''additionalProperties''")
      case True
      have "removeIdRecursive v = v"
      proof -
        have nn: "\<And>n. n \<in> set (nodes v) \<Longrightarrow> \<not> hasId n"
        proof -
          fix n assume "n \<in> set (nodes v)"
          then have "n \<in> set (childNodes k v)" using True notProps by (auto simp: childNodes_def)
          then show "\<not> hasId n" using sub[OF kv] Obj.prems by blast
        qed
        from True show ?thesis
        proof
          assume "k = ''items''"
          then show ?thesis using Obj.IH(3)[of v] kv nn by blast
        next
          assume "k = ''additionalProperties''"
          then show ?thesis using Obj.IH(4)[of v] kv nn by blast
        qed
      qed
      then show ?thesis using True notProps by (simp add: childValue_def)
    next
      case False
      then show ?thesis using notProps by (simp add: childValue_def)
    qed
  qed
  have "map (\<lambda>(k, v). (k, childValue k v)) kvs = kvs"
    by (intro map_idI) (auto simp: child)
  then show ?case by (simp add: removeId_obj filt)
next
  case (Other v)
  then show ?case by (simp add: removeId_nonobj)
qed

lemma removeId_idem: "removeIdRecursive (removeIdRecursive s) = removeIdRecursive s"
  by (rule removeId_fix) (rule removeId_noId)

lemma removeKey_in: "e \<in> set (removeKey k c) \<Longrightarrow> e \<in> set c"
  by (auto simp: removeKey_def)

lemma schemaCache_okD: "schemaCache_ok c \<Longrightarrow> (k, v, t) \<in> set c \<Longrightarrow> v = removeIdRecursive k"
  by (auto simp: schemaCache_ok_def)

lemma schemaCache_okI: "(\<And>k v t. (k, v, t) \<in> set c \<Longrightarrow> v = removeIdRecursive k) \<Longrightarrow> schemaCache_ok c"
  by (auto simp: schemaCache_ok_def)

lemma lru_get_ok:
  assumes "schemaCache_ok c" and "lru_get opts now c k = (c', r)"
  shows "schemaCache_ok c'" and "r = Some v \<Longrightarrow> v = removeIdRecursive k"
proof -
  have in_c: "map_of c k = Some (v', t) \<Longrightarrow> v' = removeIdRecursive k" for v' t
    using schemaCache_okD[OF assms(1)] by (auto dest!: map_of_SomeD)
  show "schemaCache_ok c'"
  proof (rule schemaCache_okI)
    fix k' v' t' assume "(k', v', t') \<in> set c'"
    then have "(k', v', t') \<in> set c \<or> (k' = k \<and> (\<exists>t. map_of c k = Some (v', t)))"
      using assms(2)
      by (auto simp: lru_get_def split: option.splits if_splits dest!: removeKey_in)
    then show "v' = removeIdRecursive k'"
      using schemaCache_okD[OF assms(1)] in_c by blast
  qed
  show "r = Some v \<Longrightarrow> v = removeIdRecursive k"
    using assms(2) in_c
    by (auto simp: lru_get_def split: option.splits if_splits)
qed

lemma lru_set_ok:
  assumes "schemaCache_ok c" and "v = removeIdRecursive k"
  shows "schemaCache_ok (lru_set opts now c k v)"
proof (rule schemaCache_okI)
  fix k' v' t' assume "(k', v', t') \<in> set (lru_set opts now c k v)"
  then have "(k', v', t') \<in> set c \<or> (k' = k \<and> v' = v)"
    by (auto simp: lru_set_def dest!: in_set_takeD removeKey_in)
  then show "v' = removeIdRecursive k'"
    using schemaCache_okD[OF assms(1)] assms(2) by blast
qed

lemma prepareSchema_value:
  assumes "schemaCache_ok cache"
  shows "snd (prepareSchema now cache schema) = removeIdRecursive schema"
proof (cases "\<not> truthy schema \<or> \<not> typeofObject schema")
  case True
  then have "\<And>kvs. schema \<noteq> JObj kvs" by auto
  then show ?thesis using True by (simp add: prepareSchema_def removeId_nonobj)
next
  case False
  obtain c' r where g: "lru_get cacheConfig_schema now cache schema = (c', r)"
    by (cases "lru_get cacheConfig_schema now cache schema")
  show ?thesis
    using False g lru_get_ok(2)[OF assms g]
    by (auto simp: prepareSchema_def Let_def split: option.splits)
qed

lemma prepareSchema_ok:
  assumes "schemaCache_ok cache"
  shows "schemaCache_ok (fst (prepareSchema now cache schema))"
proof (cases "\<not> truthy schema \<or> \<not> typeofObject schema")
  case True
  then show ?thesis using assms by (simp add: prepareSchema_def)
next
  case False
  obtain c' r where g: "lru_get cacheConfig_schema now cache schema = (c', r)"
    by (cases "lru_get cacheConfig_schema now cache schema")
  show ?thesis
    using False g lru_get_ok(1)[OF assms g] lru_set_ok[of c' "removeIdRecursive schema" schema]
    by (auto simp: prepareSchema_def Let_def split: option.splits)
qed

section \<open>Claims about schema preparation\<close>

lemmas eval_schema =
  prepareSchema_def lru_get_def lru_set_def removeKey_def isStale_def cacheConfig_schema_def
  removeIdRecursive.simps nodes.simps hasId_def additionalPolicyOf_def schemaCache_ok_def
  exampleSchema_def closedSchema_def Let_def




text \<open>
  Claim C7. Preparing the prepared schema again, in the cache the first preparation
  leaves and at any later time, returns an equal value; and a schema none of whose
  nodes has an \<^verbatim>\<open>$id\<close> is returned as it is.
\<close>

theorem prepareSchema_idempotent:
  assumes "schemaCache_ok cache"
  shows "snd (prepareSchema t2 (fst (prepareSchema t1 cache schema))
                (snd (prepareSchema t1 cache schema)))
           = snd (prepareSchema t1 cache schema) \<and>
         ((\<forall>n \<in> set (nodes schema). \<not> hasId n) \<longrightarrow>
            snd (prepareSchema t1 cache schema) = schema)"
proof -
  have ok1: "schemaCache_ok (fst (prepareSchema t1 cache schema))"
    by (rule prepareSchema_ok[OF assms])
  have fixp: "(\<forall>n \<in> set (nodes schema). \<not> hasId n) \<longrightarrow> removeIdRecursive schema = schema"
    using removeId_fix[of schema] by blast
  show ?thesis
    using fixp by (simp add: prepareSchema_value[OF ok1] prepareSchema_value[OF assms] removeId_idem)
qed

text \<open>The theorem on the empty cache, at a schema with identifiers and at one without.\<close>

theorem prepareSchema_idempotent_witness:
  "schemaCache_ok [] \<and>
   snd (prepareSchema 7 (fst (prepareSchema 3 [] exampleSchema))
          (snd (prepareSchema 3 [] exampleSchema)))
     = snd (prepareSchema 3 [] exampleSchema) \<and>
   filter hasId (nodes closedSchema) = [] \<and>
   snd (prepareSchema 3 [] closedSchema) = closedSchema"
proof -
  have ok: "schemaCache_ok []" by (simp add: schemaCache_ok_def)
  have noid: "\<forall>n \<in> set (nodes closedSchema). \<not> hasId n"
    by (simp add: eval_schema)
  show ?thesis
    using prepareSchema_idempotent[OF ok, of 7 3 exampleSchema]
      prepareSchema_idempotent[OF ok, of 7 3 closedSchema] ok noid
    by (simp add: filter_empty_conv)
qed

section \<open>The prepared-schema cache\<close>

lemma length_removeKey: "length (removeKey k c) \<le> length c"
  by (simp add: removeKey_def)





section \<open>Claims about schema validation\<close>

lemma validateSchema_code:
  "\<not> valid (snd (validateSchema compile now cache schema)) \<longleftrightarrow>
     (schema = None \<or>
      (\<exists>s. schema = Some s \<and> (\<not> truthy s \<or> \<not> typeofObject s)) \<or>
      (\<exists>s t. schema = Some s \<and> getProp s ''type'' = Some t \<and> truthy t \<and> t \<notin> set validTypes) \<or>
      (\<exists>s. schema = Some s \<and> snd (lru_get cacheConfig_validation now cache s) = None \<and>
           isl (compile s)))"
  apply (cases schema)
   apply (simp add: validateSchema_def)
  subgoal for s
    apply (cases "lru_get cacheConfig_validation now cache s")
    apply (auto simp: validateSchema_def Let_def split: option.splits sum.splits)
    done
  done

lemma validateSchema_errors:
  "errors (snd (validateSchema compile now cache schema)) =
     (if valid (snd (validateSchema compile now cache schema)) then []
      else [hd (errors (snd (validateSchema compile now cache schema)))])"
  apply (cases schema)
   apply (simp add: validateSchema_def)
  subgoal for s
    apply (cases "lru_get cacheConfig_validation now cache s")
    apply (auto simp: validateSchema_def Let_def split: option.splits sum.splits)
    done
  done


lemma validatorCache_miss:
  assumes "validatorCache_ok compile cache" and "isl (compile s)"
  shows "snd (lru_get cacheConfig_validation now cache s) = None"
proof (cases "map_of cache s")
  case None
  then show ?thesis by (simp add: lru_get_def)
next
  case (Some e)
  obtain f t where e: "e = (f, t)" by (cases e)
  with Some have "(s, f, t) \<in> set cache" by (auto dest: map_of_SomeD)
  with assms show ?thesis by (auto simp: validatorCache_ok_def)
qed

lemma validateSchema_literal:
  assumes rej: "rejectsIllTyped compile" and ok: "validatorCache_ok compile cache"
  shows "\<not> valid (snd (validateSchema compile now cache schema)) \<longleftrightarrow>
     (schema = None \<or>
      (\<exists>s. schema = Some s \<and>
         ((\<forall>kvs. s \<noteq> JObj kvs) \<or>
          (\<exists>t. getProp s ''type'' = Some t \<and> t \<notin> set validTypes) \<or>
          isl (compile s))))"
proof (cases schema)
  case None
  then show ?thesis by (simp add: validateSchema_def)
next
  case (Some s)
  have miss: "isl (compile s) \<Longrightarrow> snd (lru_get cacheConfig_validation now cache s) = None"
    by (rule validatorCache_miss[OF ok])
  show ?thesis
  proof (cases s)
    case (JObj kvs)
    show ?thesis
    proof (cases "map_of kvs ''type''")
      case None
      then show ?thesis using Some JObj miss
        by (auto simp: validateSchema_code)
    next
      case (Some t)
      note ty = Some
      show ?thesis
      proof (cases "truthy t")
        case True
        then show ?thesis using \<open>schema = Some s\<close> JObj ty miss
          by (auto simp: validateSchema_code)
      next
        case False
        then have "t \<notin> set validTypes" by (auto simp: validTypes_def)
        moreover have "isl (compile s)" using rej False ty JObj
          by (auto simp: rejectsIllTyped_def)
        ultimately show ?thesis using \<open>schema = Some s\<close> JObj ty False miss
          by (auto simp: validateSchema_code)
      qed
    qed
  next
    case (JArr xs)
    then have "isl (compile s)" using rej by (auto simp: rejectsIllTyped_def)
    then show ?thesis using Some JArr miss
      by (auto simp: validateSchema_code)
  qed (use Some in \<open>auto simp: validateSchema_code\<close>)
qed

text \<open>
  Claim C8. \<^verbatim>\<open>validateSchema\<close> answers invalid exactly when the schema is missing or
  falsy, or is not of type object, or has a truthy \<^verbatim>\<open>type\<close> outside the seven names,
  or is not in the validator cache and its compilation throws. A valid answer has no
  error and an invalid one exactly one; when the type check fails the answer is that
  error alone and nothing is compiled or cached. Where the validator library rejects
  arrays and falsy types and the cache holds compiled schemas only, this is: invalid
  exactly when the schema is missing or not an object, or has a \<^verbatim>\<open>type\<close> that is not
  one of the seven names, or its compilation throws.
\<close>

theorem validateSchema_verdict:
  "(\<not> valid (snd (validateSchema compile now cache schema)) \<longleftrightarrow>
     (schema = None \<or>
      (\<exists>s. schema = Some s \<and> (\<not> truthy s \<or> \<not> typeofObject s)) \<or>
      (\<exists>s t. schema = Some s \<and> getProp s ''type'' = Some t \<and> truthy t \<and> t \<notin> set validTypes) \<or>
      (\<exists>s. schema = Some s \<and> snd (lru_get cacheConfig_validation now cache s) = None \<and>
           isl (compile s)))) \<and>
   (valid (snd (validateSchema compile now cache schema)) \<longrightarrow>
      errors (snd (validateSchema compile now cache schema)) = []) \<and>
   (\<not> valid (snd (validateSchema compile now cache schema)) \<longrightarrow>
      length (errors (snd (validateSchema compile now cache schema))) = 1) \<and>
   (\<forall>s t. schema = Some s \<and> truthy s \<and> typeofObject s \<and> getProp s ''type'' = Some t \<and>
          truthy t \<and> t \<notin> set validTypes \<longrightarrow>
          validateSchema compile now cache schema
            = (cache, \<lparr>valid = False, errors = [InvalidSchemaType t]\<rparr>)) \<and>
   (rejectsIllTyped compile \<and> validatorCache_ok compile cache \<longrightarrow>
      (\<not> valid (snd (validateSchema compile now cache schema)) \<longleftrightarrow>
         (schema = None \<or>
          (\<exists>s. schema = Some s \<and>
             ((\<forall>kvs. s \<noteq> JObj kvs) \<or>
              (\<exists>t. getProp s ''type'' = Some t \<and> t \<notin> set validTypes) \<or>
              isl (compile s))))))"
proof -
  have 4: "\<forall>s t. schema = Some s \<and> truthy s \<and> typeofObject s \<and> getProp s ''type'' = Some t \<and>
          truthy t \<and> t \<notin> set validTypes \<longrightarrow>
          validateSchema compile now cache schema
            = (cache, \<lparr>valid = False, errors = [InvalidSchemaType t]\<rparr>)"
    by (auto simp: validateSchema_def)
  have e: "errors (snd (validateSchema compile now cache schema)) =
     (if valid (snd (validateSchema compile now cache schema)) then []
      else [hd (errors (snd (validateSchema compile now cache schema)))])"
    by (rule validateSchema_errors)
  have 2: "valid (snd (validateSchema compile now cache schema)) \<longrightarrow>
      errors (snd (validateSchema compile now cache schema)) = []"
    using e by (auto split: if_splits)
  have 3: "\<not> valid (snd (validateSchema compile now cache schema)) \<longrightarrow>
      length (errors (snd (validateSchema compile now cache schema))) = 1"
    using e by (metis length_Cons list.size(3) One_nat_def)
  show ?thesis
    using validateSchema_code[of compile now cache schema] 2 3 4
      validateSchema_literal[of compile cache now schema]
    by blast
qed

lemma toyCompile_rejects: "rejectsIllTyped toyCompile"
  unfolding rejectsIllTyped_def
proof (intro allI impI)
  fix s :: json
  assume "(\<exists>xs. s = JArr xs) \<or> (\<exists>t. getProp s ''type'' = Some t \<and> \<not> truthy t)"
  then show "isl (toyCompile s)"
    by (cases s) (auto simp: toyCompile_def)
qed

text \<open>
  The theorem at \<^verbatim>\<open>{"type":"banana"}\<close>, which is rejected for its type, and at a
  schema that compiles, on the empty validator cache.
\<close>

theorem validateSchema_verdict_witness:
  "rejectsIllTyped toyCompile \<and> validatorCache_ok toyCompile [] \<and>
   snd (validateSchema toyCompile 0 [] (Some bananaSchema))
     = \<lparr>valid = False, errors = [InvalidSchemaType (JStr ''banana'')]\<rparr> \<and>
   length (errors (snd (validateSchema toyCompile 0 [] (Some bananaSchema)))) = 1 \<and>
   getProp bananaSchema ''type'' = Some (JStr ''banana'') \<and>
   valid (snd (validateSchema toyCompile 0 [] (Some closedSchema))) \<and>
   errors (snd (validateSchema toyCompile 0 [] (Some closedSchema))) = []"
proof -
  have ok: "validatorCache_ok toyCompile []" by (simp add: validatorCache_ok_def)
  have b: "snd (validateSchema toyCompile 0 [] (Some bananaSchema))
     = \<lparr>valid = False, errors = [InvalidSchemaType (JStr ''banana'')]\<rparr>"
    by (simp add: validateSchema_def bananaSchema_def validTypes_def)
  have ty: "getProp bananaSchema ''type'' = Some (JStr ''banana'')"
    by (simp add: bananaSchema_def)
  have c: "valid (snd (validateSchema toyCompile 0 [] (Some closedSchema)))"
    by (simp add: validateSchema_def closedSchema_def validTypes_def lru_get_def toyCompile_def)
  show ?thesis
    using validateSchema_verdict[of toyCompile 0 "[]" "Some bananaSchema"]
      validateSchema_verdict[of toyCompile 0 "[]" "Some closedSchema"]
      toyCompile_rejects ok b ty c
    by simp
qed

section \<open>Claims about the strict post-pass\<close>











section \<open>Claims about the job registry\<close>

text \<open>
  Claim C10. Two requests are registered one after the other under the same job id
  \<open>j\<close>, in any registry. The second registration makes the alias of \<open>j\<close> point to the
  second request; unregistering either request deletes the alias while the other
  request stays registered; and once the first is unregistered, \<^verbatim>\<open>abortByJobId\<close> for
  \<open>j\<close> answers false and leaves the whole state, aborted controllers included, as it
  is.
\<close>

theorem shared_jobId_alias_lost:
  assumes "j \<noteq> []"
  shows "let (s1, r1) = registerRequest s (Some j) c1 n1 t1;
             (s2, r2) = registerRequest s1 (Some j) c2 n2 t2;
             s3 = unregisterRequest s2 r1;
             s3' = unregisterRequest s2 r2
         in r1 \<noteq> r2 \<and>
            jobAliases s1 j = Some r1 \<and>
            jobAliases s2 j = Some r2 \<and>
            activeRequests s2 r1 \<noteq> None \<and> activeRequests s2 r2 \<noteq> None \<and>
            jobAliases s3 j = None \<and>
            activeRequests s3 r2 \<noteq> None \<and>
            abortByJobId s3 j = (s3, False) \<and>
            jobAliases s3' j = None \<and>
            activeRequests s3' r1 \<noteq> None"
  using assms
  by (simp add: registerRequest_def unregisterRequest_def abortByJobId_def Let_def)

text \<open>The theorem in a fresh registry, for the job id \<^verbatim>\<open>job-1\<close>.\<close>

theorem shared_jobId_alias_lost_witness:
  "''job-1'' \<noteq> [] \<and>
   snd (registerRequest emptyRegistry (Some ''job-1'') (Some 1) 1000 10) = 1 \<and>
   snd (registerRequest (fst (registerRequest emptyRegistry (Some ''job-1'') (Some 1) 1000 10))
          (Some ''job-1'') (Some 2) 2000 20) = 2 \<and>
   snd (abortByJobId
          (unregisterRequest
             (fst (registerRequest
                     (fst (registerRequest emptyRegistry (Some ''job-1'') (Some 1) 1000 10))
                     (Some ''job-1'') (Some 2) 2000 20)) 1)
          ''job-1'') = False"
  using shared_jobId_alias_lost[of "''job-1''" emptyRegistry "Some 1" 1000 10 "Some 2" 2000 20]
  by (simp add: registerRequest_def Let_def emptyRegistry_def split_def)

section \<open>Claims about the dispatch of buffered generation\<close>

text \<open>
  Claim C4, as the code has it. The handler of \<^verbatim>\<open>POST /generate\<close> decides by the count
  alone: an item with a count below 300 is generated on the caller's thread by
  \<^verbatim>\<open>generateBatch\<close>, whatever its options, the \<^verbatim>\<open>streaming\<close> flag included, and an item
  with a count of 300 or more goes to the worker pool with the prepared schema.
\<close>

theorem dispatch_by_count_only:
  "snd (dispatchItem now cache schemaItem itemCount genOpts) =
     (if itemCount < 300
      then GenerateBatch schemaItem itemCount genOpts
      else PoolGenerate (snd (prepareSchema now cache schemaItem)) itemCount genOpts)"
  by (simp add: dispatchItem_def shouldUseWorkers_def workerThreshold_def split_def Let_def)

text \<open>The theorem at a job of 299 records and at one of 300, both without streaming.\<close>

theorem dispatch_by_count_only_witness:
  "snd (dispatchItem 0 [] closedSchema 299 (streamingOptions\<lparr>streaming := False\<rparr>))
     = GenerateBatch closedSchema 299 (streamingOptions\<lparr>streaming := False\<rparr>) \<and>
   snd (dispatchItem 0 [] closedSchema 300 (streamingOptions\<lparr>streaming := False\<rparr>))
     = PoolGenerate closedSchema 300 (streamingOptions\<lparr>streaming := False\<rparr>)"
proof -
  have p: "snd (prepareSchema 0 [] closedSchema) = closedSchema"
    by (simp add: eval_schema)
  show ?thesis
    using dispatch_by_count_only[of 0 "[]" closedSchema 299 "streamingOptions\<lparr>streaming := False\<rparr>"]
      dispatch_by_count_only[of 0 "[]" closedSchema 300 "streamingOptions\<lparr>streaming := False\<rparr>"] p
    by simp
qed

text \<open>
  Claim C4 as stated fails: a job of 10 records that requests streaming is not
  dispatched to the worker pool, it is generated inline.
\<close>

theorem dispatch_streaming_small_counterexample:
  "streaming streamingOptions \<and>
   snd (dispatchItem 0 [] exampleSchema 10 streamingOptions)
     = GenerateBatch exampleSchema 10 streamingOptions"
  by (simp add: dispatchItem_def shouldUseWorkers_def workerThreshold_def streamingOptions_def Let_def)

section \<open>Claims about the fan-out over the worker pool\<close>

declare chunkLoop.simps [simp del]

lemma chunkLoop_closed:
  "0 < cs \<Longrightarrow>
   chunkLoop i cnt cs =
     replicate ((cnt - i) div cs) cs @ (if (cnt - i) mod cs = 0 then [] else [(cnt - i) mod cs])"
proof (induction i cnt cs rule: chunkLoop.induct)
  case (1 i cnt cs)
  show ?case
  proof (cases "i < cnt")
    case False
    then show ?thesis using "1.prems" by (subst chunkLoop.simps) simp
  next
    case True
    note IH = "1.IH"[OF conjI[OF True "1.prems"] "1.prems"]
    show ?thesis
    proof (cases "cs \<le> cnt - i")
      case True
      then have d: "(cnt - i) div cs = Suc ((cnt - (i + cs)) div cs)"
        and m: "(cnt - i) mod cs = (cnt - (i + cs)) mod cs"
        using "1.prems" by (simp_all add: le_div_geq le_mod_geq)
      show ?thesis
        using \<open>i < cnt\<close> "1.prems" True IH
        by (subst chunkLoop.simps) (simp add: d m)
    next
      case False
      then have "cnt - (i + cs) = 0" "(cnt - i) div cs = 0" "(cnt - i) mod cs = cnt - i"
        by simp_all
      then show ?thesis
        using \<open>i < cnt\<close> "1.prems" False IH
        by (subst chunkLoop.simps) simp
    qed
  qed
qed

lemma ceilDiv_pos: "0 < b \<Longrightarrow> 0 < a \<Longrightarrow> 0 < ceilDiv a b"
  by (simp add: ceilDiv_def div_greater_zero_iff)





lemma div_mod_sum:
  "sum_list (replicate (n div cs) cs @ (if n mod cs = 0 then [] else [n mod cs])) = (n::nat)"
proof -
  have "n div cs * cs + n mod cs = n" by simp
  then show ?thesis by (auto simp: sum_list_replicate)
qed


lemma promiseAll_fulfilled:
  "(\<And>i. i < length rs \<Longrightarrow> \<not> isl (rs ! i)) \<Longrightarrow> promiseAll ord rs = Inr (map projr rs)"
  by (auto simp: promiseAll_def find_None_iff split: option.splits)

lemma fanOut_counts:
  assumes "0 < cnt" and "0 < T"
  shows "map task_count (fanOutTasks T schema cnt opts) =
           replicate (cnt div ceilDiv cnt (min (T * 5) (ceilDiv cnt 25)))
                     (ceilDiv cnt (min (T * 5) (ceilDiv cnt 25))) @
           (if cnt mod ceilDiv cnt (min (T * 5) (ceilDiv cnt 25)) = 0 then []
            else [cnt mod ceilDiv cnt (min (T * 5) (ceilDiv cnt 25))])"
proof -
  define w where "w = min (T * 5) (ceilDiv cnt 25)"
  define cs where "cs = ceilDiv cnt w"
  have w: "w \<noteq> 0"
    using assms ceilDiv_pos[of 25 cnt] by (simp add: w_def)
  then have cs: "0 < cs"
    using assms by (simp add: cs_def ceilDiv_pos)
  have "createChunks cnt w = chunkLoop 0 cnt cs"
    using w by (simp add: createChunks_def cs_def)
  also have "\<dots> = replicate (cnt div cs) cs @ (if cnt mod cs = 0 then [] else [cnt mod cs])"
    using chunkLoop_closed[OF cs, of 0 cnt] by simp
  finally have "map task_count (fanOutTasks T schema cnt opts) =
      replicate (cnt div cs) cs @ (if cnt mod cs = 0 then [] else [cnt mod cs])"
    by (simp add: fanOutTasks_def Let_def comp_def w_def[symmetric])
  then show ?thesis by (simp add: cs_def w_def)
qed

lemma run_all_fulfilled:
  assumes "length outs = length tasks"
    and "\<And>i. i < length tasks \<Longrightarrow> f i (tasks ! i) = Inr (outs ! i)"
  shows "map (\<lambda>(i, t). f i t) (enumerate 0 tasks) = map Inr outs"
  using assms by (intro nth_equalityI) (simp_all add: nth_enumerate_eq)




section \<open>Claims about the pool's counters\<close>

lemma generate_stats:
  "(case generate env p schema cnt opts of
      (p', Inr res) \<Rightarrow>
        stats p' = (stats p)\<lparr>totalGenerated := totalGenerated (stats p) +
                                 (if 50 \<le> cnt \<and> \<not> streaming opts then length (deliveredData res)
                                  else cnt),
                               totalDuration := totalDuration (stats p) + elapsed env,
                               completedJobs := completedJobs (stats p) + 1\<rparr>
    | (p', Inl (JobAbortedError j)) \<Rightarrow>
        stats p' = (stats p)\<lparr>abortedJobs := abortedJobs (stats p) + 1\<rparr>
    | (p', Inl (GenerationError msg)) \<Rightarrow> stats p' = stats p)"
  by (auto simp: generate_def catchGenerate_def tryGenerate_def countCompleted_def Let_def
      deliveredData_def
      split: sum.splits taskError.splits prod.splits appError.splits)

text \<open>
  Claim C2, as the code has it. For every call of \<^verbatim>\<open>generate\<close> exactly one of three
  things happens to the counters. When the call returns, \<^verbatim>\<open>completedJobs\<close> grows by
  one, \<^verbatim>\<open>totalDuration\<close> by the elapsed time, and \<^verbatim>\<open>totalGenerated\<close> by the number of
  records delivered on the fan-out path and by the requested count on the single-task
  path. When it throws \<^verbatim>\<open>JobAbortedError\<close>, \<^verbatim>\<open>abortedJobs\<close> grows by one and nothing
  else changes. When it throws \<^verbatim>\<open>GenerationError\<close>, no counter changes.
\<close>

theorem generate_counts_once:
  "(case generate env p schema cnt opts of
      (p', Inr res) \<Rightarrow>
        stats p' = (stats p)\<lparr>totalGenerated := totalGenerated (stats p) +
                                 (if 50 \<le> cnt \<and> \<not> streaming opts then length (deliveredData res)
                                  else cnt),
                               totalDuration := totalDuration (stats p) + elapsed env,
                               completedJobs := completedJobs (stats p) + 1\<rparr>
    | (p', Inl (JobAbortedError j)) \<Rightarrow>
        stats p' = (stats p)\<lparr>abortedJobs := abortedJobs (stats p) + 1\<rparr>
    | (p', Inl (GenerationError msg)) \<Rightarrow> stats p' = stats p)"
  by (rule generate_stats)

declare streamLoop.simps [simp del]

lemma tryGenerate_steady:
  assumes "50 \<le> cnt" and "\<not> streaming opts"
  shows "tryGenerate steadyWorkers p schema cnt opts =
           (countCompleted p (length (steadyData schema cnt opts)) 7,
            Inr \<lparr>res_data = Some (steadyData schema cnt opts),
                 res_stats = Some \<lparr>recordsGenerated = length (steadyData schema cnt opts),
                                   duration = 7\<rparr>\<rparr>)"
proof -
  let ?tasks = "fanOutTasks 2 schema cnt opts"
  have rs: "map (\<lambda>(i, t). run steadyWorkers i t) (enumerate 0 ?tasks) = map Inr (map steadyResult ?tasks)"
    by (rule run_all_fulfilled) (simp_all add: steadyWorkers_def)
  have pa: "promiseAll ord (map (\<lambda>x. Inr (steadyResult x)) ?tasks) = Inr (map steadyResult ?tasks)" for ord
    using promiseAll_fulfilled[of "map (\<lambda>x. Inr (steadyResult x)) ?tasks" ord] by (simp add: comp_def)
  have th: "threads steadyWorkers = 2" "elapsed steadyWorkers = 7"
    by (simp_all add: steadyWorkers_def)
  show ?thesis
    using assms
    by (simp add: tryGenerate_def Let_def th rs pa steadyData_def comp_def)
qed

lemma steadyData_length:
  assumes "0 < cnt"
  shows "length (steadyData schema cnt opts) = cnt"
proof -
  have "length (steadyData schema cnt opts) = sum_list (map task_count (fanOutTasks 2 schema cnt opts))"
    by (simp add: steadyData_def length_concat comp_def steadyResult_def deliveredData_def)
  also have "\<dots> = cnt"
    by (simp only: fanOut_counts[OF assms zero_less_numeral] div_mod_sum)
  finally show ?thesis .
qed

lemma generate_steady:
  assumes "50 \<le> cnt" and "\<not> streaming opts"
  shows "generate steadyWorkers p schema cnt opts =
           ((countCompleted p cnt 7)\<lparr>activeJobs :=
               (if jobIdGiven (jobId opts) then insert (the (jobId opts)) (activeJobs p) - {the (jobId opts)}
                else activeJobs p)\<rparr>,
            Inr \<lparr>res_data = Some (steadyData schema cnt opts),
                 res_stats = Some \<lparr>recordsGenerated = cnt, duration = 7\<rparr>\<rparr>)"
proof -
  have l: "length (steadyData schema cnt opts) = cnt"
    using assms(1) by (simp add: steadyData_length)
  show ?thesis
    using assms
    by (simp add: generate_def catchGenerate_def tryGenerate_steady l Let_def countCompleted_def)
qed

text \<open>The theorem at a job of 120 records on the steady pool.\<close>

theorem generate_counts_once_witness:
  "stats (fst (generate steadyWorkers freshPool closedSchema 120 bufferedOptions)) =
     \<lparr>totalGenerated = 120, totalDuration = 7, completedJobs = 1, abortedJobs = 0\<rparr>"
proof -
  let ?R = "\<lparr>res_data = Some (steadyData closedSchema 120 bufferedOptions),
             res_stats = Some \<lparr>recordsGenerated = 120, duration = 7\<rparr>\<rparr>"
  have so: "\<not> streaming bufferedOptions" by (simp add: bufferedOptions_def)
  have el: "elapsed steadyWorkers = 7" by (simp add: steadyWorkers_def)
  have l: "length (steadyData closedSchema 120 bufferedOptions) = 120"
    by (simp add: steadyData_length)
  obtain p' where g: "generate steadyWorkers freshPool closedSchema 120 bufferedOptions = (p', Inr ?R)"
    using generate_steady[of 120 bufferedOptions freshPool closedSchema] so by simp
  have "stats p' = (stats freshPool)\<lparr>totalGenerated := totalGenerated (stats freshPool) + 120,
                                      totalDuration := totalDuration (stats freshPool) + 7,
                                      completedJobs := completedJobs (stats freshPool) + 1\<rparr>"
    using generate_counts_once[where env = steadyWorkers and p = freshPool and schema = closedSchema
        and cnt = 120 and opts = bufferedOptions]
    by (simp add: g so l el deliveredData_def)
  moreover have "stats (fst (generate steadyWorkers freshPool closedSchema 120 bufferedOptions)) = stats p'"
    by (simp add: g)
  ultimately show ?thesis by (simp add: freshPool_def)
qed

lemmas eval_stream =
  generateStream_def streamLoop.simps generate_steady quietStream_def abortedStream_def
  bufferedOptions_def freshPool_def countCompleted_def Let_def

text \<open>
  Claim C2 as stated fails for a job that is streamed: the handler of
  \<^verbatim>\<open>POST /generate-stream\<close> calls \<^verbatim>\<open>generate\<close> once for each chunk, so one job of 1000
  records in chunks of 500 raises \<^verbatim>\<open>completedJobs\<close> from 0 to 2.
\<close>

theorem stream_job_counted_per_chunk_counterexample:
  "written (generateStream quietStream freshPool [] closedSchema 1000 False 500 (Some ''job-1'')) =
     [ChunkRecord 0 (Some (steadyData closedSchema 500 bufferedOptions)) 500 1000 500 7,
      ChunkRecord 1 (Some (steadyData closedSchema 500 bufferedOptions)) 1000 1000 500 7,
      DoneRecord 1000 2] \<and>
   completedJobs (stats freshPool) = 0 \<and>
   completedJobs (stats (pool (generateStream quietStream freshPool [] closedSchema 1000 False 500
                                 (Some ''job-1'')))) = 2"
  by (simp add: eval_stream eval_schema)

section \<open>Claims about the single-schema stream\<close>

lemma streamLoop_shape:
  "\<exists>chunks. list_all isChunk chunks \<and>
     (snd (streamLoop env schema cnt chunkSize opts i st) = None \<longrightarrow>
        chunkIndex (fst (streamLoop env schema cnt chunkSize opts i st)) = chunkIndex st + length chunks) \<and>
     (written (fst (streamLoop env schema cnt chunkSize opts i st)) = written st @ chunks \<or>
      snd (streamLoop env schema cnt chunkSize opts i st) = None \<and>
      written (fst (streamLoop env schema cnt chunkSize opts i st)) =
        written st @ chunks @
        [AbortedRecord (totalSent (fst (streamLoop env schema cnt chunkSize opts i st)))])"
proof (induction env schema cnt chunkSize opts i st rule: streamLoop.induct)
  case (1 env schema cnt chunkSize opts i st)
  define x where "x = max 500 (min chunkSize 5000)"
  define xa where "xa = min x (cnt - i)"
  obtain xc y where prep:
    "prepareSchema (clockAt env (chunkIndex st)) (schemaCache st) schema = (xc, y)"
    by fastforce
  obtain xbb ya where gen:
    "generate (poolAt env (chunkIndex st)) (pool st) y xa opts = (xbb, ya)"
    by fastforce
  define xbc where "xbc = st\<lparr>pool := xbb, schemaCache := xc\<rparr>"
  show ?case
  proof (cases "i < cnt \<and> \<not> signalAborted env (chunkIndex st) \<and>
                (\<exists>b x2. ya = Inr b \<and> res_stats b = Some x2)")
    case True
    then obtain b x2 where b: "ya = Inr b" "res_stats b = Some x2" by blast
    let ?line = "ChunkRecord (chunkIndex xbc) (res_data b) (i + xa) cnt xa (duration x2)"
    let ?st2 = "xbc\<lparr>written := written xbc @ [?line],
                    totalSent := totalSent xbc + xa,
                    chunkIndex := chunkIndex xbc + 1\<rparr>"
    have step: "streamLoop env schema cnt chunkSize opts i st =
                streamLoop env schema cnt chunkSize opts (i + x) ?st2"
      using True b
      by (subst streamLoop.simps)
         (simp add: Let_def x_def[symmetric] xa_def[symmetric] prep gen xbc_def[symmetric])
    from True have t1: "i < cnt" and t2: "\<not> signalAborted env (chunkIndex st)" by auto
    from "1.IH"[OF x_def t1 t2 xa_def refl prep[symmetric] refl gen[symmetric] xbc_def b]
    obtain chunks where c: "list_all isChunk chunks"
      "snd (streamLoop env schema cnt chunkSize opts (i + x) ?st2) = None \<longrightarrow>
       chunkIndex (fst (streamLoop env schema cnt chunkSize opts (i + x) ?st2)) =
         chunkIndex ?st2 + length chunks"
      "written (fst (streamLoop env schema cnt chunkSize opts (i + x) ?st2)) = written ?st2 @ chunks \<or>
       snd (streamLoop env schema cnt chunkSize opts (i + x) ?st2) = None \<and>
       written (fst (streamLoop env schema cnt chunkSize opts (i + x) ?st2)) =
         written ?st2 @ chunks @
         [AbortedRecord (totalSent (fst (streamLoop env schema cnt chunkSize opts (i + x) ?st2)))]"
      by (elim exE conjE) (rule that, assumption+)
    show ?thesis
      apply (rule exI[of _ "?line # chunks"])
      using c by (simp add: step xbc_def)
  next
    case False
    have "(snd (streamLoop env schema cnt chunkSize opts i st) = None \<longrightarrow>
             chunkIndex (fst (streamLoop env schema cnt chunkSize opts i st)) = chunkIndex st) \<and>
          (written (fst (streamLoop env schema cnt chunkSize opts i st)) = written st \<or>
           snd (streamLoop env schema cnt chunkSize opts i st) = None \<and>
           written (fst (streamLoop env schema cnt chunkSize opts i st)) =
             written st @
             [AbortedRecord (totalSent (fst (streamLoop env schema cnt chunkSize opts i st)))])"
      using False
      by (subst (1 2 3 4 5 6) streamLoop.simps)
         (auto simp: Let_def x_def[symmetric] xa_def[symmetric] prep gen split: sum.splits option.splits)
    then show ?thesis
      by (intro exI[of _ "[]"]) simp
  qed
qed

text \<open>
  Claim C3 against the code. Whenever the handler writes the abort line, the lines
  written are chunk lines, the abort line, and then the final line
  \<^verbatim>\<open>{"done":true,...}\<close>, after which the body is ended: the \<^verbatim>\<open>break\<close> of the abort branch
  leaves the loop and falls through to the completion write.
\<close>

theorem stream_abort_then_done:
  "AbortedRecord c \<in> set (written (generateStream env p cache schema cnt rnd chunkSize jid)) \<longrightarrow>
     (\<exists>chunks. list_all isChunk chunks \<and>
        written (generateStream env p cache schema cnt rnd chunkSize jid) =
          chunks @ [AbortedRecord c, DoneRecord c (length chunks)]) \<and>
     ended (generateStream env p cache schema cnt rnd chunkSize jid)"
proof
  let ?st0 = "\<lparr>pool = p, schemaCache = cache, written = [], ended = False,
                totalSent = 0, chunkIndex = 0\<rparr>"
  let ?opts = "\<lparr>jobId = jid, streaming = False, randomMode = rnd, streamBufferSize = 500\<rparr>"
  let ?r = "streamLoop env schema cnt chunkSize ?opts 0 ?st0"
  assume a: "AbortedRecord c \<in> set (written (generateStream env p cache schema cnt rnd chunkSize jid))"
  obtain chunks where ch: "list_all isChunk chunks"
    and ix: "snd ?r = None \<longrightarrow> chunkIndex (fst ?r) = length chunks"
    and sh: "written (fst ?r) = chunks \<or>
             snd ?r = None \<and> written (fst ?r) = chunks @ [AbortedRecord (totalSent (fst ?r))]"
    using streamLoop_shape[of env schema cnt chunkSize ?opts 0 ?st0] by auto
  have nc: "AbortedRecord c \<notin> set chunks"
    using ch by (auto simp: list_all_iff)
  obtain st1 thrown where r: "?r = (st1, thrown)" by fastforce
  have w: "written (generateStream env p cache schema cnt rnd chunkSize jid) =
        written st1 @ (case thrown of None \<Rightarrow> [DoneRecord (totalSent st1) (chunkIndex st1)]
                                     | Some msg \<Rightarrow> [FailedRecord msg (totalSent st1)])"
    and e: "ended (generateStream env p cache schema cnt rnd chunkSize jid)"
    by (simp_all add: generateStream_def Let_def r split: option.splits)
  from sh r have "thrown = None \<and> written st1 = chunks @ [AbortedRecord (totalSent st1)]"
    using a nc w by (auto split: option.splits)
  then have "written (generateStream env p cache schema cnt rnd chunkSize jid) =
      chunks @ [AbortedRecord c, DoneRecord c (length chunks)]"
    using a nc w ix r by auto
  then show "(\<exists>chunks. list_all isChunk chunks \<and>
        written (generateStream env p cache schema cnt rnd chunkSize jid) =
          chunks @ [AbortedRecord c, DoneRecord c (length chunks)]) \<and>
     ended (generateStream env p cache schema cnt rnd chunkSize jid)"
    using ch e by blast
qed

text \<open>
  The theorem at a stream of 1000 records in chunks of 500, where the abort signal is
  seen at the head of the second iteration: one chunk, the abort line, the final line.
\<close>

theorem stream_abort_then_done_witness:
  "written (generateStream abortedStream freshPool [] closedSchema 1000 False 500 (Some ''job-1'')) =
     [ChunkRecord 0 (Some (steadyData closedSchema 500 bufferedOptions)) 500 1000 500 7,
      AbortedRecord 500,
      DoneRecord 500 1] \<and>
   ended (generateStream abortedStream freshPool [] closedSchema 1000 False 500 (Some ''job-1''))"
proof -
  have w: "written (generateStream abortedStream freshPool [] closedSchema 1000 False 500
                      (Some ''job-1'')) =
     [ChunkRecord 0 (Some (steadyData closedSchema 500 bufferedOptions)) 500 1000 500 7,
      AbortedRecord 500,
      DoneRecord 500 1]"
    by (simp add: eval_stream eval_schema)
  show ?thesis
    using stream_abort_then_done[where c = 500 and env = abortedStream and p = freshPool
        and cache = "[]" and schema = closedSchema and cnt = 1000 and rnd = False
        and chunkSize = 500 and jid = "Some ''job-1''"] w
    by simp
qed

lemma promiseAll_rejected:
  assumes "rs \<noteq> []" and "\<And>i. i < length rs \<Longrightarrow> rs ! i = Inl e"
  shows "promiseAll ord rs = Inl e"
proof -
  let ?P = "\<lambda>i. i < length rs \<and> isl (rs ! i)"
  have "0 < length rs" using assms(1) by simp
  then have "?P 0" using assms(2)[of 0] by simp
  moreover have "0 \<in> set (ord @ [0..<length rs])" using assms(1) by simp
  ultimately obtain i where f: "List.find ?P (ord @ [0..<length rs]) = Some i"
    by (cases "List.find ?P (ord @ [0..<length rs])") (auto simp: find_None_iff)
  then have "?P i" by (auto simp: find_Some_iff)
  then show ?thesis using f assms(2) by (simp add: promiseAll_def)
qed

lemma generate_aborting:
  assumes "50 \<le> cnt" and "\<not> streaming opts"
  shows "generate abortingWorkers p schema cnt opts =
           (p\<lparr>stats := (stats p)\<lparr>abortedJobs := abortedJobs (stats p) + 1\<rparr>,
              activeJobs :=
                (if jobIdGiven (jobId opts) then insert (the (jobId opts)) (activeJobs p) - {the (jobId opts)}
                 else activeJobs p)\<rparr>,
            Inl (JobAbortedError (jobName (jobId opts))))"
proof -
  let ?tasks = "fanOutTasks 2 schema cnt opts"
  have "length (map task_count ?tasks) \<noteq> 0"
  proof -
    have c: "0 < cnt" using assms(1) by simp
    have "sum_list (map task_count ?tasks) = cnt"
      by (simp only: fanOut_counts[OF c zero_less_numeral] div_mod_sum)
    then show ?thesis using assms(1) by (cases "map task_count ?tasks") auto
  qed
  then have ne: "?tasks \<noteq> []" by simp
  then have ne': "enumerate 0 ?tasks \<noteq> []"
    by (metis length_enumerate length_greater_0_conv)
  have pa: "promiseAll ord (map (\<lambda>(i, t). run abortingWorkers i t) (enumerate 0 ?tasks)) = Inl AbortError"
    for ord
    by (rule promiseAll_rejected) (use ne' in \<open>simp_all add: abortingWorkers_def nth_enumerate_eq\<close>)
  have th: "threads abortingWorkers = 2" "settled abortingWorkers = []"
    by (simp_all add: abortingWorkers_def)
  have "tryGenerate abortingWorkers p1 schema cnt opts = (p1, Inl AbortError)" for p1
    using assms by (simp add: tryGenerate_def Let_def th pa)
  then show ?thesis
    by (simp add: generate_def catchGenerate_def Let_def)
qed

text \<open>
  A second way an abort reaches the stream. When the pool's own job is cancelled while
  a chunk is generated (\<^verbatim>\<open>POST /stop-job/:jobId\<close> calls \<^verbatim>\<open>generatorPool.abortJob\<close>),
  \<^verbatim>\<open>generate\<close> throws \<^verbatim>\<open>JobAbortedError\<close> inside the \<^verbatim>\<open>try\<close> block: the stream ends with
  the failure line carrying that error's message, and no abort line is written.
\<close>

lemma stream_pool_abort_reported_as_failure:
  "written (generateStream stoppedStream freshPool [] closedSchema 1000 False 500 (Some ''job-1'')) =
     [ChunkRecord 0 (Some (steadyData closedSchema 500 bufferedOptions)) 500 1000 500 7,
      FailedRecord ''Job job-1 was aborted by user'' 500] \<and>
   abortedJobs (stats (pool (generateStream stoppedStream freshPool [] closedSchema 1000 False 500
                               (Some ''job-1'')))) = 1 \<and>
   completedJobs (stats (pool (generateStream stoppedStream freshPool [] closedSchema 1000 False 500
                                 (Some ''job-1'')))) = 1"
  by (simp add: eval_stream generate_aborting stoppedStream_def jobName_def eval_schema)

end
